theory Spec2Isabelle
  imports Complex_Main
begin

section \<open>Neurometeo: the signal-processing script of main.py\<close>

text \<open>
  The script main.py runs top to bottom on every interaction. Its own computations are
  list comprehensions over the 24 hourly wind samples. They are embedded here as
  functions on lists. Python floats are modelled as \<^typ>\<open>real\<close>, Python ints
  as \<^typ>\<open>int\<close> (list lengths and the slider's window as \<^typ>\<open>nat\<close>), and every
  exception the source can raise is a value \<open>Inl e\<close> of a sum type.
\<close>

subsection \<open>Python exceptions and built-ins\<close>

datatype py_error =
    ZeroDivisionError
  | ValueError
  | IndexError
  | NameError string
  | RequestError

text \<open>True division \<open>a / b\<close>: raises on a zero divisor, for floats as for ints.\<close>

definition py_truediv :: "real \<Rightarrow> real \<Rightarrow> py_error + real" where
  "py_truediv a b = (if b = 0 then Inl ZeroDivisionError else Inr (a / b))"

text \<open>The built-ins \<open>min\<close> and \<open>max\<close> on a list: ValueError on an empty one.\<close>

fun py_min :: "real list \<Rightarrow> py_error + real" where
  "py_min [] = Inl ValueError"
| "py_min (x # xs) = Inr (fold min xs x)"

fun py_max :: "real list \<Rightarrow> py_error + real" where
  "py_max [] = Inl ValueError"
| "py_max (x # xs) = Inr (fold max xs x)"

text \<open>
  A list comprehension \<open>[f x for x in xs]\<close> whose body may raise: the body is evaluated
  once per element, left to right, and the first exception ends the comprehension.
  On an empty list the body is never evaluated.
\<close>

fun comprehension :: "('a \<Rightarrow> py_error + 'b) \<Rightarrow> 'a list \<Rightarrow> py_error + 'b list" where
  "comprehension f [] = Inr []"
| "comprehension f (x # xs) =
     (case f x of
        Inl e \<Rightarrow> Inl e
      | Inr y \<Rightarrow> (case comprehension f xs of Inl e \<Rightarrow> Inl e | Inr ys \<Rightarrow> Inr (y # ys)))"

text \<open>
  Indexing \<open>xs[k]\<close> with a Python int: a negative index counts from the end, an index
  out of range raises IndexError.
\<close>

definition py_index :: "'a list \<Rightarrow> int \<Rightarrow> py_error + 'a" where
  "py_index xs k =
     (let n = int (length xs); j = (if k < 0 then n + k else k)
      in if 0 \<le> j \<and> j < n then Inr (xs ! nat j) else Inl IndexError)"

subsection \<open>Signal Normalizer and Spike Encoder (lines 33 to 36)\<close>

text \<open>
  Line 34, the body of the comprehension: \<open>(w - min(wind)) / (max(wind) - min(wind))\<close>.
\<close>

definition norm_elem :: "real list \<Rightarrow> real \<Rightarrow> py_error + real" where
  "norm_elem wind w =
     (case py_min wind of
        Inl e \<Rightarrow> Inl e
      | Inr lo \<Rightarrow>
          (case py_max wind of
             Inl e \<Rightarrow> Inl e
           | Inr hi \<Rightarrow> py_truediv (w - lo) (hi - lo)))"

definition wind_norm :: "real list \<Rightarrow> py_error + real list" where
  "wind_norm wind = comprehension (norm_elem wind) wind"

text \<open>Line 36: \<open>[1 if w > threshold else 0 for w in wind_norm]\<close>.\<close>

definition spikes :: "real \<Rightarrow> real list \<Rightarrow> int list" where
  "spikes threshold wn = map (\<lambda>w. if w > threshold then 1 else 0) wn"

text \<open>
  Lines 30 to 39, the \<open>try\<close> block. The Forecast Source's answer is either a failure
  of the request or of the two dictionary lookups, or the list under
  \<open>data["hourly"]["wind_speed_10m"]\<close>. The slice \<open>[:24]\<close> keeps at most 24 samples.
  A result \<open>Inl e\<close> is the \<open>except\<close> branch: the error is shown and the script stops.
\<close>

definition acquire ::
  "py_error + real list \<Rightarrow> real \<Rightarrow> py_error + (real list \<times> real list \<times> int list)" where
  "acquire response threshold =
     (case response of
        Inl e \<Rightarrow> Inl e
      | Inr samples \<Rightarrow>
          (let wind = take 24 samples in
           case wind_norm wind of
             Inl e \<Rightarrow> Inl e
           | Inr wn \<Rightarrow> Inr (wind, wn, spikes threshold wn)))"

subsection \<open>Neuron Simulator (lines 42 to 49)\<close>

text \<open>
  \<open>lif_step\<close> is a function of the norse library, not of this repository: the loop is
  modelled for an arbitrary step function, which receives the input, the state, the two
  weights (\<open>torch.eye(1)\<close>, the scalar 1) and the parameter alpha (100.0), and returns
  the output \<open>z\<close> with the next state. Tensors of one element are scalars.
\<close>

record lif_state =
  lif_z :: real
  lif_v :: real
  lif_i :: real

type_synonym lif_step = "real \<Rightarrow> lif_state \<Rightarrow> real \<Rightarrow> real \<Rightarrow> real \<Rightarrow> real \<times> lif_state"

definition zero_state :: lif_state where
  "zero_state = \<lparr>lif_z = 0, lif_v = 0, lif_i = 0\<rparr>"

text \<open>
  The \<open>for\<close> loop of lines 46 to 49, with the variables \<open>state\<close> and \<open>outputs\<close> passed
  along: each spike is converted to a float, one step is taken from the current state, and
  the output is appended.
\<close>

fun lif_loop :: "lif_step \<Rightarrow> lif_state \<Rightarrow> real list \<Rightarrow> int list \<Rightarrow> lif_state \<times> real list" where
  "lif_loop step st outs [] = (st, outs)"
| "lif_loop step st outs (spike # rest) =
     (case step (real_of_int spike) st 1 1 100 of
        (zz, st') \<Rightarrow> lif_loop step st' (outs @ [zz]) rest)"

definition outputs :: "lif_step \<Rightarrow> int list \<Rightarrow> real list" where
  "outputs step sp = snd (lif_loop step zero_state [] sp)"

definition final_state :: "lif_step \<Rightarrow> int list \<Rightarrow> lif_state" where
  "final_state step sp = fst (lif_loop step zero_state [] sp)"

text \<open>
  What the library's step returns is not fixed by this script. To speak of two runs, the
  step is also taken as a relation between its five arguments and a result: a run of the
  loop of lines 42 to 49 starts from the state and the empty list it is given, takes for
  each spike, in order, some result the step allows on \<open>float(spike)\<close>, the current
  state, the weights 1 and 1 and alpha 100, and appends its output. A step is
  deterministic when it allows at most one result on each input; the step given by a
  function allows exactly the function's result.
\<close>

type_synonym lif_step_rel =
  "real \<Rightarrow> lif_state \<Rightarrow> real \<Rightarrow> real \<Rightarrow> real \<Rightarrow> real \<times> lif_state \<Rightarrow> bool"

definition deterministic_step :: "lif_step_rel \<Rightarrow> bool" where
  "deterministic_step R =
     (\<forall>x st w_in w_rec alpha r r'.
        R x st w_in w_rec alpha r \<longrightarrow> R x st w_in w_rec alpha r' \<longrightarrow> r = r')"

definition graph_of :: "lif_step \<Rightarrow> lif_step_rel" where
  "graph_of step x st w_in w_rec alpha r = (r = step x st w_in w_rec alpha)"

inductive lif_run ::
  "lif_step_rel \<Rightarrow> lif_state \<Rightarrow> real list \<Rightarrow> int list \<Rightarrow> lif_state \<Rightarrow> real list \<Rightarrow> bool"
  for R :: lif_step_rel where
  finished: "lif_run R st outs [] st outs"
| iteration:
    "R (real_of_int spike) st 1 1 100 (zz, st') \<Longrightarrow> lif_run R st' (outs @ [zz]) rest st_end outs_end
     \<Longrightarrow> lif_run R st outs (spike # rest) st_end outs_end"

text \<open>
  A trace of the simulator: the outputs of some run from the all-zero state and the empty
  list of line 45.
\<close>

definition simulation :: "lif_step_rel \<Rightarrow> int list \<Rightarrow> real list \<Rightarrow> bool" where
  "simulation R sp trace = (\<exists>st_end. lif_run R zero_state [] sp st_end trace)"

subsection \<open>Forecaster (lines 52 to 54)\<close>

text \<open>
  Line 53, the body: \<open>sum(wind[i:i+pred_window]) / pred_window\<close>. The slice of a list
  at non-negative bounds is \<open>take\<close> after \<open>drop\<close>; a bound past the end is clipped.
\<close>

definition window_mean :: "real list \<Rightarrow> nat \<Rightarrow> nat \<Rightarrow> py_error + real" where
  "window_mean wind pred_window i =
     py_truediv (sum_list (take pred_window (drop i wind))) (real pred_window)"

text \<open>
  \<open>range(len(wind) - pred_window + 1)\<close> is empty when its bound is not positive, and
  \<open>[None] * k\<close> is empty when \<open>k\<close> is not positive: both are computed over \<^typ>\<open>int\<close>.
  The placeholder \<open>None\<close> is \<^const>\<open>None\<close>.
\<close>

definition preds :: "real list \<Rightarrow> nat \<Rightarrow> py_error + real option list" where
  "preds wind pred_window =
     (case comprehension (window_mean wind pred_window)
             [0..<nat (int (length wind) - int pred_window + 1)] of
        Inl e \<Rightarrow> Inl e
      | Inr ms \<Rightarrow> Inr (map Some ms @ replicate (nat (24 - int (length ms))) None))"

subsection \<open>What the user sees\<close>

type_synonym csv_row = "int \<times> real \<times> real \<times> int \<times> real \<times> real option"

datatype ui_event =
    Fetch_error py_error
  | Pyplot "real list" "real list" "int list" "real list" "real option list" real
  | Write_spikes int
  | Write_max_output real
  | Write_max_wind real
  | Write_prediction real
  | Warning_unavailable
  | Download_csv "csv_row list"
  | Send_error py_error
  | Send_success

text \<open>
  A run of the script, or of a part of it, is the list of what it has shown, with how it
  ended: to its end, by \<open>st.stop()\<close>, or by an exception nobody caught.
\<close>

datatype status = Completed | Stopped | Crashed py_error

type_synonym run = "ui_event list \<times> status"

definition and_then :: "run \<Rightarrow> run \<Rightarrow> run" where
  "and_then a b = (case snd a of Completed \<Rightarrow> (fst a @ fst b, snd b) | _ \<Rightarrow> a)"

subsection \<open>Summary (lines 72 to 82)\<close>

text \<open>Line 77: \<open>preds[len(spikes)-1] if preds and len(preds) >= len(spikes) else None\<close>.\<close>

definition val :: "real option list \<Rightarrow> int list \<Rightarrow> py_error + real option" where
  "val ps sp =
     (if ps \<noteq> [] \<and> length ps \<ge> length sp then py_index ps (int (length sp) - 1)
      else Inr None)"

text \<open>
  Lines 79 to 82: a float or an int is written, anything else (here only \<open>None\<close>) gives
  the warning.
\<close>

definition prediction_line :: "real option \<Rightarrow> ui_event" where
  "prediction_line v = (case v of Some x \<Rightarrow> Write_prediction x | None \<Rightarrow> Warning_unavailable)"

definition summary :: "real list \<Rightarrow> int list \<Rightarrow> real list \<Rightarrow> real option list \<Rightarrow> run" where
  "summary wind sp outs ps =
     (case py_max outs of
        Inl e \<Rightarrow> ([Write_spikes (sum_list sp)], Crashed e)
      | Inr mo \<Rightarrow>
          (case py_max wind of
             Inl e \<Rightarrow> ([Write_spikes (sum_list sp), Write_max_output mo], Crashed e)
           | Inr mw \<Rightarrow>
               (case val ps sp of
                  Inl e \<Rightarrow>
                    ([Write_spikes (sum_list sp), Write_max_output mo, Write_max_wind mw],
                     Crashed e)
                | Inr v \<Rightarrow>
                    ([Write_spikes (sum_list sp), Write_max_output mo, Write_max_wind mw,
                      prediction_line v], Completed))))"

subsection \<open>CSV export (lines 87 to 96)\<close>

text \<open>
  The frame has the column \<open>list(range(24))\<close> beside the five series; pandas raises
  ValueError when the columns of a frame differ in length.
\<close>

definition data_frame ::
  "real list \<Rightarrow> real list \<Rightarrow> int list \<Rightarrow> real list \<Rightarrow> real option list
     \<Rightarrow> py_error + csv_row list" where
  "data_frame wind wn sp outs ps =
     (if length wind = 24 \<and> length wn = 24 \<and> length sp = 24 \<and> length outs = 24
         \<and> length ps = 24
      then Inr (zip (map int [0..<24]) (zip wind (zip wn (zip sp (zip outs ps)))))
      else Inl ValueError)"

subsection \<open>Alert Evaluator (lines 98 to 117)\<close>

text \<open>
  Line 99: \<open>alerte_active and max(wind) > 30\<close>. The \<open>and\<close> evaluates its right side only
  when the left one is true.
\<close>

definition alert_condition :: "bool \<Rightarrow> real list \<Rightarrow> py_error + bool" where
  "alert_condition alerte_active wind =
     (if \<not> alerte_active then Inr False
      else (case py_max wind of Inl e \<Rightarrow> Inl e | Inr m \<Rightarrow> Inr (m > 30)))"

text \<open>
  The names bound at module level when line 106 runs: those of the imports of lines 6
  to 12 and the variables assigned above it. Reading any other name (none of the two
  names below is a built-in) raises NameError.
\<close>

definition module_names :: "string list" where
  "module_names =
     [''st'', ''requests'', ''torch'', ''plt'', ''pd'', ''StringIO'', ''lif_step'',
      ''LIFState'', ''LIFParameters'', ''villes'', ''ville_nom'', ''lat'', ''lon'',
      ''url'', ''data'', ''wind'', ''wind_norm'', ''threshold'', ''spikes'', ''state'',
      ''w_in'', ''w_rec'', ''outputs'', ''spike'', ''inp'', ''z'', ''pred_window'',
      ''preds'', ''fig'', ''ax'', ''val'', ''df'', ''csv'', ''alerte_active'', ''sender'',
      ''password'', ''receiver'']"

definition lookup_name :: "string \<Rightarrow> py_error + unit" where
  "lookup_name n = (if n \<in> set module_names then Inr () else Inl (NameError n))"

text \<open>
  Lines 106 to 113: the message is built with \<open>MIMEText\<close>, then sent through
  \<open>smtplib\<close>. The outcome of the mail transport itself (connection, login, delivery) is
  the parameter \<open>smtp\<close>.
\<close>

definition send_message :: "py_error + unit \<Rightarrow> py_error + unit" where
  "send_message smtp =
     (case lookup_name ''MIMEText'' of
        Inl e \<Rightarrow> Inl e
      | Inr u \<Rightarrow> (case lookup_name ''smtplib'' of Inl e \<Rightarrow> Inl e | Inr u' \<Rightarrow> smtp))"

text \<open>
  Lines 100 to 117, the \<open>try\<close> block: \<open>button\<close> is what \<open>st.button\<close> returns. Every
  exception of the model is an \<open>Exception\<close>, so the \<open>except\<close> clause catches it.
\<close>

definition alert_try :: "bool \<Rightarrow> py_error + unit \<Rightarrow> ui_event list" where
  "alert_try button smtp =
     (if button
      then (case send_message smtp of Inl e \<Rightarrow> [Send_error e] | Inr u \<Rightarrow> [Send_success])
      else [])"

definition alert_section :: "bool \<Rightarrow> real list \<Rightarrow> bool \<Rightarrow> py_error + unit \<Rightarrow> run" where
  "alert_section alerte_active wind button smtp =
     (case alert_condition alerte_active wind of
        Inl e \<Rightarrow> ([], Crashed e)
      | Inr c \<Rightarrow> ((if c then alert_try button smtp else []), Completed))"

subsection \<open>The script\<close>

text \<open>
  Lines 30 to 96: everything but the alert. It takes neither the alert's checkbox, nor
  its button, nor the mail transport.
\<close>

definition pipeline :: "lif_step \<Rightarrow> py_error + real list \<Rightarrow> real \<Rightarrow> nat \<Rightarrow> run" where
  "pipeline step response threshold pred_window =
     (case acquire response threshold of
        Inl e \<Rightarrow> ([Fetch_error e], Stopped)
      | Inr (wind, wn, sp) \<Rightarrow>
          (let outs = outputs step sp in
           case preds wind pred_window of
             Inl e \<Rightarrow> ([], Crashed e)
           | Inr ps \<Rightarrow>
               and_then ([Pyplot wind wn sp outs ps threshold], Completed)
                 (and_then (summary wind sp outs ps)
                    (case data_frame wind wn sp outs ps of
                       Inl e \<Rightarrow> ([], Crashed e)
                     | Inr rows \<Rightarrow> ([Download_csv rows], Completed)))))"

text \<open>The variable \<open>wind\<close> as the alert reads it, once line 33 has run.\<close>

definition raw_wind :: "py_error + real list \<Rightarrow> real list" where
  "raw_wind response = (case response of Inl e \<Rightarrow> [] | Inr samples \<Rightarrow> take 24 samples)"

definition run_script ::
  "lif_step \<Rightarrow> py_error + unit \<Rightarrow> py_error + real list \<Rightarrow> real \<Rightarrow> nat \<Rightarrow> bool \<Rightarrow> bool \<Rightarrow> run" where
  "run_script step smtp response threshold pred_window alerte_active button =
     and_then (pipeline step response threshold pred_window)
       (alert_section alerte_active (raw_wind response) button smtp)"

subsection \<open>A series to run the script on\<close>

text \<open>The 24 increasing multiples of 10, from 10 to 240.\<close>

definition ramp :: "real list" where
  "ramp = map (\<lambda>k. 10 * real k) [1..<25]"

section \<open>Properties\<close>

subsection \<open>Built-ins and comprehensions\<close>

lemma comprehension_total:
  "(\<And>x. x \<in> set xs \<Longrightarrow> f x = Inr (g x)) \<Longrightarrow> comprehension f xs = Inr (map g xs)"
  by (induction xs) simp_all

lemma py_min_Min:
  assumes "wind \<noteq> []"
  shows "py_min wind = Inr (Min (set wind))"
proof (cases wind)
  case Nil
  with assms show ?thesis by simp
next
  case (Cons x xs)
  then show ?thesis using Min.set_eq_fold [of x xs] by simp
qed

lemma py_max_Max:
  assumes "wind \<noteq> []"
  shows "py_max wind = Inr (Max (set wind))"
proof (cases wind)
  case Nil
  with assms show ?thesis by simp
next
  case (Cons x xs)
  then show ?thesis using Max.set_eq_fold [of x xs] by simp
qed

lemma norm_elem_scaled:
  assumes "wind \<noteq> []" and "Max (set wind) \<noteq> Min (set wind)"
  shows "norm_elem wind w = Inr ((w - Min (set wind)) / (Max (set wind) - Min (set wind)))"
  using assms by (simp add: norm_elem_def py_min_Min py_max_Max py_truediv_def)

lemma norm_elem_degenerate:
  assumes "wind \<noteq> []" and "Max (set wind) = Min (set wind)"
  shows "norm_elem wind w = Inl ZeroDivisionError"
  using assms by (simp add: norm_elem_def py_min_Min py_max_Max py_truediv_def)

lemma wind_norm_scaled:
  assumes "wind \<noteq> []" and "Max (set wind) \<noteq> Min (set wind)"
  shows "wind_norm wind =
    Inr (map (\<lambda>w. (w - Min (set wind)) / (Max (set wind) - Min (set wind))) wind)"
  unfolding wind_norm_def
  by (rule comprehension_total) (rule norm_elem_scaled [OF assms])

lemma wind_norm_degenerate:
  assumes "wind \<noteq> []" and "Max (set wind) = Min (set wind)"
  shows "wind_norm wind = Inl ZeroDivisionError"
proof -
  obtain x xs where "wind = x # xs" using assms(1) by (cases wind) auto
  then show ?thesis
    using norm_elem_degenerate [OF assms, of x] by (simp add: wind_norm_def)
qed

lemma scaled_bounds:
  fixes w lo hi :: real
  assumes "lo \<le> w" "w \<le> hi" "lo \<noteq> hi"
  shows "0 \<le> (w - lo) / (hi - lo)" "(w - lo) / (hi - lo) \<le> 1"
  using assms by (simp_all add: divide_le_eq_1)

lemma ramp_eq:
  "ramp = [10, 20, 30, 40, 50, 60, 70, 80, 90, 100, 110, 120, 130, 140, 150, 160, 170,
           180, 190, 200, 210, 220, 230, 240]"
  unfolding ramp_def by (simp add: upt_rec)


lemma ramp_min_max: "Min (set ramp) = 10" "Max (set ramp) = 240"
  unfolding ramp_eq by simp_all

lemma ramp_ne: "ramp \<noteq> []"
  by (simp add: ramp_eq)

subsection \<open>Signal Normalizer\<close>

text \<open>
  Claim C1. For a series of 24 samples whose maximum differs from its minimum, line 34
  raises nothing and returns the 24 values \<open>(wind[i] - min) / (max - min)\<close>; each
  lies between 0 and 1, a sample equal to the maximum gives 1 and a sample equal to the
  minimum gives 0.
\<close>

theorem normalizer_min_max_scaling:
  assumes "length wind = 24" and "Max (set wind) \<noteq> Min (set wind)"
  shows "\<exists>wn. wind_norm wind = Inr wn \<and> length wn = 24 \<and>
    (\<forall>i<24. wn ! i = (wind ! i - Min (set wind)) / (Max (set wind) - Min (set wind))
       \<and> 0 \<le> wn ! i \<and> wn ! i \<le> 1
       \<and> (wind ! i = Max (set wind) \<longrightarrow> wn ! i = 1)
       \<and> (wind ! i = Min (set wind) \<longrightarrow> wn ! i = 0))"
proof -
  let ?lo = "Min (set wind)" and ?hi = "Max (set wind)"
  let ?wn = "map (\<lambda>w. (w - ?lo) / (?hi - ?lo)) wind"
  have ne: "wind \<noteq> []" using assms(1) by auto
  have run: "wind_norm wind = Inr ?wn" by (rule wind_norm_scaled [OF ne assms(2)])
  have each: "?wn ! i = (wind ! i - ?lo) / (?hi - ?lo) \<and> 0 \<le> ?wn ! i \<and> ?wn ! i \<le> 1
       \<and> (wind ! i = ?hi \<longrightarrow> ?wn ! i = 1) \<and> (wind ! i = ?lo \<longrightarrow> ?wn ! i = 0)"
    if "i < 24" for i
  proof -
    have mem: "wind ! i \<in> set wind" using that assms(1) by simp
    have lo: "?lo \<le> wind ! i" using mem by simp
    have hi: "wind ! i \<le> ?hi" using mem by simp
    have nth: "?wn ! i = (wind ! i - ?lo) / (?hi - ?lo)" using that assms(1) by simp
    show ?thesis
      using scaled_bounds [OF lo hi] assms(2) nth by auto
  qed
  show ?thesis using run each assms(1) by auto
qed

text \<open>The theorem on the series 10, 20, ..., 240.\<close>

theorem normalizer_min_max_scaling_witness:
  "length ramp = 24 \<and> Max (set ramp) \<noteq> Min (set ramp) \<and>
   (\<exists>wn. wind_norm ramp = Inr wn \<and> length wn = 24 \<and> wn ! 0 = 0 \<and> wn ! 7 = 7 / 23
      \<and> wn ! 23 = 1)"
proof -
  have len: "length ramp = 24" by (simp add: ramp_def)
  have ne: "Max (set ramp) \<noteq> Min (set ramp)" by (simp add: ramp_min_max)
  obtain wn where wn: "wind_norm ramp = Inr wn" "length wn = 24"
    and each: "\<forall>i<24. wn ! i = (ramp ! i - Min (set ramp)) / (Max (set ramp) - Min (set ramp))"
    using normalizer_min_max_scaling [OF len ne] by blast
  have "wn ! 0 = 0" "wn ! 7 = 7 / 23" "wn ! 23 = 1"
    using each [rule_format, of 0] each [rule_format, of 7] each [rule_format, of 23]
    by (simp_all add: ramp_min_max ramp_eq)
  with wn len ne show ?thesis by blast
qed

subsection \<open>Spike Encoder\<close>

text \<open>
  Claim C2. For every normalized series and every threshold, the spike train has the
  length of the series, and its entry at an index is 1 exactly when the normalized value
  there is strictly greater than the threshold, and 0 otherwise; a value equal to the
  threshold gives 0.
\<close>

theorem spike_encoder_strict:
  "length (spikes T wn) = length wn \<and>
   (\<forall>i<length wn. (spikes T wn ! i = 1 \<longleftrightarrow> wn ! i > T)
      \<and> (spikes T wn ! i = 0 \<longleftrightarrow> \<not> wn ! i > T)
      \<and> (wn ! i = T \<longrightarrow> spikes T wn ! i = 0))"
  by (simp add: spikes_def)

text \<open>The theorem at threshold 0.3 on the values 0.3 and 0.5.\<close>

theorem spike_encoder_strict_witness:
  "spikes (3 / 10) [3 / 10, 1 / 2] ! 0 = 0 \<and> spikes (3 / 10) [3 / 10, 1 / 2] ! 1 = 1"
  using spike_encoder_strict [of "3 / 10" "[3 / 10, 1 / 2]"]
  by (simp add: less_Suc_eq)

subsection \<open>Forecaster\<close>

lemma window_mean_value:
  "0 < p \<Longrightarrow> window_mean wind p i = Inr (sum_list (take p (drop i wind)) / real p)"
  by (simp add: window_mean_def py_truediv_def)

lemma window_mean_zero: "window_mean wind 0 i = Inl ZeroDivisionError"
  by (simp add: window_mean_def py_truediv_def)

lemma preds_value:
  assumes "0 < p"
  shows "preds wind p =
    Inr (map (\<lambda>i. Some (sum_list (take p (drop i wind)) / real p))
           [0..<nat (int (length wind) - int p + 1)]
         @ replicate (nat (24 - int (nat (int (length wind) - int p + 1)))) None)"
proof -
  have "comprehension (window_mean wind p) [0..<nat (int (length wind) - int p + 1)] =
      Inr (map (\<lambda>i. sum_list (take p (drop i wind)) / real p)
             [0..<nat (int (length wind) - int p + 1)])"
    by (rule comprehension_total) (rule window_mean_value [OF assms])
  then show ?thesis by (simp add: preds_def comp_def)
qed

lemma window_sum_nth:
  assumes "i + p \<le> length wind"
  shows "sum_list (take p (drop i wind)) = (\<Sum>k<p. (wind ! (i + k) :: real))"
proof -
  have len: "length (take p (drop i wind)) = p" using assms by simp
  have "sum_list (take p (drop i wind)) = (\<Sum>k = 0..<p. take p (drop i wind) ! k)"
    using sum_list_sum_nth [of "take p (drop i wind)"] len by simp
  also have "\<dots> = (\<Sum>k = 0..<p. wind ! (i + k))"
    using assms by (intro sum.cong) simp_all
  finally show ?thesis by (simp add: lessThan_atLeast0)
qed

lemma preds_24:
  assumes "length wind = 24" "1 \<le> p" "p \<le> 24"
  shows "preds wind p =
    Inr (map (\<lambda>i. Some (sum_list (take p (drop i wind)) / real p)) [0..<25 - p]
         @ replicate (p - 1) None)"
proof -
  have n: "nat (int (length wind) - int p + 1) = 25 - p" using assms by simp
  have pad: "nat (24 - int (25 - p)) = p - 1" using assms by simp
  show ?thesis using preds_value [of p wind] assms(2) by (simp add: n pad)
qed

text \<open>
  Claim C3. For a series of 24 samples and a window between 1 and 5, lines 53 and 54
  raise nothing and return 24 entries, of which exactly \<open>24 - window + 1\<close> are values:
  the entry at each index up to \<open>24 - window\<close> is the mean of the
  \<open>window\<close> samples from that index on, every later entry is \<open>None\<close>, and for
  window 1 each entry is the sample itself.
\<close>

theorem forecaster_sliding_mean:
  assumes "length wind = 24" "1 \<le> p" "p \<le> 5"
  shows "\<exists>ps. preds wind p = Inr ps \<and> length ps = 24
     \<and> length (filter (\<lambda>x. x \<noteq> None) ps) = 24 - p + 1
     \<and> (\<forall>i. i \<le> 24 - p \<longrightarrow> ps ! i = Some ((\<Sum>k<p. wind ! (i + k)) / real p))
     \<and> (\<forall>i. 24 - p < i \<and> i < 24 \<longrightarrow> ps ! i = None)
     \<and> (p = 1 \<longrightarrow> (\<forall>i<24. ps ! i = Some (wind ! i)))"
proof -
  let ?valid = "map (\<lambda>i. Some (sum_list (take p (drop i wind)) / real p)) [0..<25 - p]"
  let ?ps = "?valid @ replicate (p - 1) None"
  have run: "preds wind p = Inr ?ps" using preds_24 [of wind p] assms by simp
  have len: "length ?ps = 24" using assms by simp
  have cnt: "length (filter (\<lambda>x. x \<noteq> None) ?ps) = 24 - p + 1"
    using assms by (simp add: filter_map comp_def)
  have front: "?ps ! i = Some ((\<Sum>k<p. wind ! (i + k)) / real p)" if "i \<le> 24 - p" for i
  proof -
    have i: "i < 25 - p" using that assms by simp
    then have "i < length ?valid" by simp
    then have "?ps ! i = ?valid ! i" by (simp only: nth_append if_True)
    also have "\<dots> = Some (sum_list (take p (drop i wind)) / real p)"
      using i by simp
    also have "sum_list (take p (drop i wind)) = (\<Sum>k<p. wind ! (i + k))"
      using that assms by (intro window_sum_nth) simp
    finally show ?thesis .
  qed
  have padded: "?ps ! i = None" if "24 - p < i" "i < 24" for i
  proof -
    have ge: "\<not> i < length ?valid" using that assms by simp
    have lt: "i - length ?valid < p - 1" using that assms by simp
    have "?ps ! i = replicate (p - 1) None ! (i - length ?valid)"
      using ge by (simp only: nth_append if_False)
    also have "\<dots> = None" using lt by (rule nth_replicate)
    finally show ?thesis .
  qed
  have one: "?ps ! i = Some (wind ! i)" if "p = 1" "i < 24" for i
    using front [of i] that by simp
  show ?thesis using run len cnt front padded one by blast
qed

text \<open>The theorem on the series 10, 20, ..., 240 with window 3.\<close>

theorem forecaster_sliding_mean_witness:
  "length ramp = 24 \<and> (1::nat) \<le> 3 \<and> (3::nat) \<le> 5 \<and>
   (\<exists>ps. preds ramp 3 = Inr ps \<and> length ps = 24 \<and> ps ! 0 = Some 20 \<and> ps ! 21 = Some 230
      \<and> ps ! 22 = None \<and> ps ! 23 = None)"
proof -
  have len: "length ramp = 24" by (simp add: ramp_def)
  obtain ps where ps: "preds ramp 3 = Inr ps" "length ps = 24"
    and front: "\<forall>i. i \<le> 24 - 3 \<longrightarrow> ps ! i = Some ((\<Sum>k<3. ramp ! (i + k)) / real 3)"
    and padded: "\<forall>i. 24 - 3 < i \<and> i < 24 \<longrightarrow> ps ! i = None"
    using forecaster_sliding_mean [OF len, of 3] by auto
  have "ps ! 0 = Some 20" "ps ! 21 = Some 230"
    using front [rule_format, of 0] front [rule_format, of 21]
    by (simp_all add: ramp_eq lessThan_nat_numeral lessThan_Suc)
  moreover have "ps ! 22 = None" "ps ! 23 = None"
    using padded [rule_format, of 22] padded [rule_format, of 23] by simp_all
  ultimately show ?thesis using ps len by simp
qed

subsection \<open>Alert Evaluator\<close>

text \<open>
  Claim C4. For every series with at least one sample (so for every series of 24) and
  every state of the checkbox, line 99 raises nothing and its condition is the checkbox
  together with \<open>max(wind) > 30\<close>: the comparison is strict, the bound is the constant
  30, and the maximum is that of the raw samples. With the checkbox off the condition is
  false whatever the samples, and the \<open>try\<close> block of the alert runs exactly when the
  condition holds.
\<close>

theorem alert_decision:
  assumes "wind \<noteq> []"
  shows "alert_condition armed wind = Inr (armed \<and> Max (set wind) > 30)
     \<and> alert_condition False ws = Inr False
     \<and> alert_section armed wind button smtp =
         ((if armed \<and> Max (set wind) > 30 then alert_try button smtp else []), Completed)"
  using assms by (simp add: alert_condition_def alert_section_def py_max_Max)

text \<open>
  The theorem on the series 10, 20, ..., 240, whose maximum is 240, and on a series whose
  maximum is exactly 30.
\<close>

theorem alert_decision_witness:
  "ramp \<noteq> [] \<and> alert_condition True ramp = Inr True \<and> alert_condition False ramp = Inr False
     \<and> alert_condition True [10, 30] = Inr False"
proof -
  have a: "alert_condition True ramp = Inr True"
    using alert_decision [OF ramp_ne, of True] by (simp add: ramp_min_max)
  have b: "alert_condition False ramp = Inr False"
    using alert_decision [OF ramp_ne, of False] by simp
  have c: "alert_condition True [10, 30] = Inr False"
    using alert_decision [of "[10, 30]" True] by simp
  show ?thesis using a b c ramp_ne by simp
qed

subsection \<open>Acquisition: short and constant series\<close>

lemma acquire_scaled:
  assumes "take 24 samples \<noteq> []"
    and "Max (set (take 24 samples)) \<noteq> Min (set (take 24 samples))"
  shows "acquire (Inr samples) T =
    Inr (take 24 samples,
         map (\<lambda>w. (w - Min (set (take 24 samples)))
                 / (Max (set (take 24 samples)) - Min (set (take 24 samples))))
           (take 24 samples),
         spikes T (map (\<lambda>w. (w - Min (set (take 24 samples)))
                 / (Max (set (take 24 samples)) - Min (set (take 24 samples))))
           (take 24 samples)))"
  using wind_norm_scaled [OF assms] by (simp add: acquire_def Let_def)

lemma acquire_degenerate:
  assumes "take 24 samples \<noteq> []"
    and "Max (set (take 24 samples)) = Min (set (take 24 samples))"
  shows "acquire (Inr samples) T = Inl ZeroDivisionError"
  using wind_norm_degenerate [OF assms] by (simp add: acquire_def Let_def)

text \<open>
  Against claim C5 as it is stated: on an answer of two samples the \<open>try\<close> block
  takes no error branch. It returns the two samples with their normalized values and
  their spikes.
\<close>

theorem short_series_not_detected_counterexample:
  "length [10, 20 :: real] < 24
   \<and> acquire (Inr [10, 20]) (3 / 10) = Inr ([10, 20], [0, 1], [0, 1])"
  by (simp add: acquire_def wind_norm_def norm_elem_def py_truediv_def spikes_def Let_def)

text \<open>
  Claim C5, amended. The script has no check of the number of samples. When the Forecast
  Source returns fewer than 24 samples that are not all equal, the \<open>try\<close> block of
  lines 30 to 39 raises nothing: \<open>wind\<close> is the whole shorter list, and the normalized
  series and the spike train are computed on it, with its length.
\<close>

theorem short_series_is_processed:
  assumes "length samples < 24" and "samples \<noteq> []"
    and "Max (set samples) \<noteq> Min (set samples)"
  shows "\<exists>wn. acquire (Inr samples) T = Inr (samples, wn, spikes T wn)
     \<and> length wn = length samples
     \<and> (\<forall>i<length samples.
           wn ! i = (samples ! i - Min (set samples)) / (Max (set samples) - Min (set samples)))"
proof -
  have t: "take 24 samples = samples" using assms(1) by simp
  show ?thesis using acquire_scaled [of samples T] assms(2,3) by (simp add: t)
qed

text \<open>The theorem on the two samples 10 and 20.\<close>

theorem short_series_is_processed_witness:
  "length [10, 20 :: real] < 24 \<and> [10, 20 :: real] \<noteq> []
   \<and> Max (set [10, 20 :: real]) \<noteq> Min (set [10, 20])
   \<and> (\<exists>wn. acquire (Inr [10, 20]) (3 / 10) = Inr ([10, 20], wn, spikes (3 / 10) wn)
         \<and> length wn = 2)"
proof -
  have a: "length [10, 20 :: real] < 24" and b: "[10, 20 :: real] \<noteq> []"
    and c: "Max (set [10, 20 :: real]) \<noteq> Min (set [10, 20])"
    by simp_all
  obtain wn where "acquire (Inr [10, 20]) (3 / 10) = Inr ([10, 20], wn, spikes (3 / 10) wn)"
    and "length wn = length [10, 20 :: real]"
    using short_series_is_processed [OF a b c, of "3 / 10"] by blast
  then show ?thesis using a b c by auto
qed

text \<open>
  Claim C6. When the 24 samples kept by line 33 are all equal, the division of line 34
  raises ZeroDivisionError on the first sample. The exception is raised inside the
  \<open>try\<close> block, so the \<open>except\<close> clause of line 37 catches it: the whole script shows
  that one error and stops, whatever the other inputs. No value is produced from the
  division by zero.
\<close>

theorem constant_series_explicit_error:
  assumes "take 24 samples = replicate 24 c"
  shows "acquire (Inr samples) T = Inl ZeroDivisionError
     \<and> run_script step smtp (Inr samples) T p armed button
         = ([Fetch_error ZeroDivisionError], Stopped)"
proof -
  have ne: "take 24 samples \<noteq> []" using assms by simp
  have eq: "Max (set (take 24 samples)) = Min (set (take 24 samples))"
    using assms by simp
  have a: "acquire (Inr samples) T = Inl ZeroDivisionError"
    by (rule acquire_degenerate [OF ne eq])
  then show ?thesis by (simp add: run_script_def pipeline_def and_then_def)
qed

text \<open>The theorem on 24 samples equal to 15.\<close>

theorem constant_series_explicit_error_witness:
  "take 24 (replicate 24 (15::real)) = replicate 24 15
   \<and> acquire (Inr (replicate 24 15)) (3 / 10) = Inl ZeroDivisionError"
  using constant_series_explicit_error [of "replicate 24 15" 15 "3 / 10"] by simp


subsection \<open>Summary: the prediction for the next hour\<close>

lemma preds_24_any:
  assumes "length wind = 24" "1 \<le> p"
  shows "preds wind p =
    Inr (map (\<lambda>i. Some (sum_list (take p (drop i wind)) / real p)) [0..<25 - p]
         @ replicate (24 - (25 - p)) None)"
proof -
  have n: "nat (int (length wind) - int p + 1) = 25 - p" using assms by simp
  have pad: "nat (24 - int (25 - p)) = 24 - (25 - p)" by simp
  show ?thesis using preds_value [of p wind] assms(2) by (simp only: n pad)
qed

lemma val_last_entry:
  assumes "length ps = 24" "length sp = 24"
  shows "val ps sp = Inr (ps ! 23)"
  using assms by (auto simp add: val_def py_index_def)

lemma summary_completed:
  assumes "outs \<noteq> []" "wind \<noteq> []" "length ps = 24" "length sp = 24"
  shows "summary wind sp outs ps =
    ([Write_spikes (sum_list sp), Write_max_output (Max (set outs)),
      Write_max_wind (Max (set wind)), prediction_line (ps ! 23)], Completed)"
  using assms by (simp add: summary_def py_max_Max val_last_entry)

text \<open>
  Claim C9. With 24 samples and 24 spikes, line 77 reads the last entry of the forecast,
  the one at index 23, and the last line of the summary is made from it. For every window
  of 2 or more that entry is \<open>None\<close> and the summary shows the warning; for window 1 it
  is the last sample and the summary shows it.
\<close>

theorem next_hour_prediction:
  assumes "length wind = 24" "length sp = 24" "outs \<noteq> []" "1 \<le> p"
  shows "\<exists>ps. preds wind p = Inr ps \<and> val ps sp = Inr (ps ! 23)
     \<and> last (fst (summary wind sp outs ps)) = prediction_line (ps ! 23)
     \<and> (2 \<le> p \<longrightarrow> ps ! 23 = None \<and> prediction_line (ps ! 23) = Warning_unavailable)
     \<and> (p = 1 \<longrightarrow> ps ! 23 = Some (wind ! 23)
           \<and> prediction_line (ps ! 23) = Write_prediction (wind ! 23))"
proof -
  let ?valid = "map (\<lambda>i. Some (sum_list (take p (drop i wind)) / real p)) [0..<25 - p]"
  let ?ps = "?valid @ replicate (24 - (25 - p)) None"
  have run: "preds wind p = Inr ?ps" by (rule preds_24_any [OF assms(1) assms(4)])
  have len: "length ?ps = 24" using assms(4) by simp
  have v: "val ?ps sp = Inr (?ps ! 23)" by (rule val_last_entry [OF len assms(2)])
  have ne: "wind \<noteq> []" using assms(1) by auto
  have s: "last (fst (summary wind sp outs ?ps)) = prediction_line (?ps ! 23)"
    using summary_completed [OF assms(3) ne len assms(2)] by simp
  have big: "?ps ! 23 = None" if "2 \<le> p"
  proof -
    have ge: "\<not> 23 < length ?valid" using that by simp
    have lt: "23 - length ?valid < 24 - (25 - p)" using that by simp
    have "?ps ! 23 = replicate (24 - (25 - p)) None ! (23 - length ?valid)"
      using ge by (simp only: nth_append if_False)
    also have "\<dots> = None" using lt by (rule nth_replicate)
    finally show ?thesis .
  qed
  have one: "?ps ! 23 = Some (wind ! 23)" if "p = 1"
  proof -
    have "wind ! 23 # drop (Suc 23) wind = drop 23 wind"
      using assms(1) by (intro Cons_nth_drop_Suc) simp
    then have "drop 23 wind = [wind ! 23]" using assms(1) by simp
    then show ?thesis using that by (simp add: nth_append)
  qed
  have "prediction_line (?ps ! 23) = Warning_unavailable" if "2 \<le> p"
    using big [OF that] by (simp add: prediction_line_def)
  moreover have "prediction_line (?ps ! 23) = Write_prediction (wind ! 23)" if "p = 1"
    using one [OF that] by (simp add: prediction_line_def)
  ultimately show ?thesis using run v s big one by blast
qed


text \<open>The theorem on the series 10, 20, ..., 240, with window 3 and with window 1.\<close>

theorem next_hour_prediction_witness:
  "length ramp = 24 \<and> length (replicate 24 (0::int)) = 24 \<and> [0::real] \<noteq> []
   \<and> (\<exists>ps. preds ramp 3 = Inr ps \<and> val ps (replicate 24 0) = Inr None
         \<and> last (fst (summary ramp (replicate 24 0) [0] ps)) = Warning_unavailable)
   \<and> (\<exists>ps. preds ramp 1 = Inr ps \<and> val ps (replicate 24 0) = Inr (Some 240)
         \<and> last (fst (summary ramp (replicate 24 0) [0] ps)) = Write_prediction 240)"
proof -
  have len: "length ramp = 24" by (simp add: ramp_def)
  have sp: "length (replicate 24 (0::int)) = 24" by simp
  have outs: "[0::real] \<noteq> []" by simp
  have r: "ramp ! 23 = 240" by (simp add: ramp_eq)
  have three: "\<exists>ps. preds ramp 3 = Inr ps \<and> val ps (replicate 24 0) = Inr None
         \<and> last (fst (summary ramp (replicate 24 0) [0] ps)) = Warning_unavailable"
    using next_hour_prediction [OF len sp outs, of 3] by auto
  have one: "\<exists>ps. preds ramp 1 = Inr ps \<and> val ps (replicate 24 0) = Inr (Some 240)
         \<and> last (fst (summary ramp (replicate 24 0) [0] ps)) = Write_prediction 240"
    using next_hour_prediction [OF len sp outs, of 1] r by auto
  show ?thesis using len sp outs three one by blast
qed

subsection \<open>Neuron Simulator\<close>

lemma lif_loop_length:
  "length (snd (lif_loop step st outs sp)) = length outs + length sp"
proof (induction sp arbitrary: st outs)
  case Nil
  then show ?case by simp
next
  case (Cons spike rest)
  obtain zz st' where one: "step (real_of_int spike) st 1 1 100 = (zz, st')"
    by (cases "step (real_of_int spike) st 1 1 100") auto
  show ?case using one Cons.IH [of st' "outs @ [zz]"] by simp
qed

lemma outputs_length: "length (outputs step sp) = length sp"
  by (simp add: outputs_def lif_loop_length)

inductive_cases lif_run_NilE: "lif_run R st outs [] st_end outs_end"
inductive_cases lif_run_ConsE: "lif_run R st outs (spike # rest) st_end outs_end"

lemma lif_run_unique:
  assumes "deterministic_step R"
    and "lif_run R st outs sp st1 outs1"
    and "lif_run R st outs sp st2 outs2"
  shows "st1 = st2 \<and> outs1 = outs2"
  using assms(2,3)
proof (induction arbitrary: st2 outs2 rule: lif_run.induct)
  case (finished st outs)
  then show ?case by (auto elim: lif_run_NilE)
next
  case (iteration spike st zz st' outs rest st_end outs_end)
  from iteration.prems obtain zz2 st2' where
    s2: "R (real_of_int spike) st 1 1 100 (zz2, st2')"
    and r2: "lif_run R st2' (outs @ [zz2]) rest st2 outs2"
    by (auto elim: lif_run_ConsE)
  have "(zz, st') = (zz2, st2')"
    using assms(1) iteration.hyps(1) s2 unfolding deterministic_step_def by blast
  then show ?case using iteration.IH r2 by simp
qed


lemma lif_run_of_function:
  "lif_run (graph_of step) st outs sp (fst (lif_loop step st outs sp)) (snd (lif_loop step st outs sp))"
proof (induction sp arbitrary: st outs)
  case Nil
  show ?case by (simp add: lif_run.finished)
next
  case (Cons spike rest)
  obtain zz st' where one: "step (real_of_int spike) st 1 1 100 = (zz, st')"
    by (cases "step (real_of_int spike) st 1 1 100") auto
  have "graph_of step (real_of_int spike) st 1 1 100 (zz, st')"
    using one by (simp add: graph_of_def)
  then have "lif_run (graph_of step) st outs (spike # rest)
      (fst (lif_loop step st' (outs @ [zz]) rest)) (snd (lif_loop step st' (outs @ [zz]) rest))"
    using Cons.IH [of st' "outs @ [zz]"] by (rule lif_run.iteration)
  then show ?case using one by simp
qed

lemma graph_of_deterministic: "deterministic_step (graph_of step)"
  by (simp add: deterministic_step_def graph_of_def)

lemma simulation_of_function: "simulation (graph_of step) sp (outputs step sp)"
  unfolding simulation_def outputs_def using lif_run_of_function by blast

lemma simulation_function_unique:
  "simulation (graph_of step) sp trace \<longleftrightarrow> trace = outputs step sp"
proof
  assume "simulation (graph_of step) sp trace"
  then obtain e where r: "lif_run (graph_of step) zero_state [] sp e trace"
    unfolding simulation_def by blast
  have "lif_run (graph_of step) zero_state [] sp
      (fst (lif_loop step zero_state [] sp)) (snd (lif_loop step zero_state [] sp))"
    by (rule lif_run_of_function)
  then show "trace = outputs step sp"
    using lif_run_unique [OF graph_of_deterministic r] by (simp add: outputs_def)
next
  assume "trace = outputs step sp"
  then show "simulation (graph_of step) sp trace" by (simp add: simulation_of_function)
qed

text \<open>
  A step that allows every result is not deterministic, and then two runs on the same
  spike train can differ: the uniqueness of the trace is not built into the relation.
\<close>

lemma simulation_may_vary:
  "simulation (\<lambda>x st w_in w_rec alpha r. True) [1] [0]
   \<and> simulation (\<lambda>x st w_in w_rec alpha r. True) [1] [5]"
proof -
  let ?any = "\<lambda>(x::real) (st::lif_state) (w_in::real) (w_rec::real) (alpha::real)
                (r::real \<times> lif_state). True"
  have run: "lif_run ?any zero_state [] [1] zero_state ([] @ [zz])" for zz
  proof -
    have "lif_run ?any zero_state ([] @ [zz]) [] zero_state ([] @ [zz])"
      by (rule lif_run.finished)
    moreover have "?any (real_of_int 1) zero_state 1 1 100 (zz, zero_state)" by simp
    ultimately show ?thesis by (rule lif_run.iteration [rotated])
  qed
  show ?thesis using run [of 0] run [of 5] unfolding simulation_def by auto
qed




subsection \<open>Alert mail\<close>

lemma send_message_fails: "send_message smtp = Inl (NameError ''MIMEText'')"
  by (simp add: send_message_def lookup_name_def module_names_def)

lemma alert_try_events:
  "alert_try button smtp = (if button then [Send_error (NameError ''MIMEText'')] else [])"
  by (simp add: alert_try_def send_message_fails)

lemma and_then_events:
  "set (fst (and_then a b)) \<subseteq> set (fst a) \<union> set (fst b)"
  by (cases "snd a") (auto simp add: and_then_def)

lemma summary_events:
  "Send_success \<notin> set (fst (summary wind sp outs ps))"
  by (simp add: summary_def prediction_line_def split: sum.splits option.splits)

lemma pipeline_events:
  "Send_success \<notin> set (fst (pipeline step response T p))"
proof (cases "acquire response T")
  case (Inl e)
  then show ?thesis by (simp add: pipeline_def)
next
  case (Inr r)
  obtain wind wn sp where r: "r = (wind, wn, sp)" by (cases r) auto
  show ?thesis
  proof (cases "preds wind p")
    case (Inl e)
    then show ?thesis using Inr r by (simp add: pipeline_def)
  next
    case ps: (Inr ps)
    let ?csv = "case data_frame wind wn sp (outputs step sp) ps of
                  Inl e \<Rightarrow> ([], Crashed e) | Inr rows \<Rightarrow> ([Download_csv rows], Completed)"
    have c: "Send_success \<notin> set (fst ?csv)" by (simp split: sum.splits)
    have "Send_success \<notin> set (fst (and_then (summary wind sp (outputs step sp) ps) ?csv))"
      using and_then_events [of "summary wind sp (outputs step sp) ps" ?csv]
        summary_events [of wind sp "outputs step sp" ps] c by blast
    then have "Send_success \<notin> set (fst (and_then
        ([Pyplot wind wn sp (outputs step sp) ps T], Completed)
        (and_then (summary wind sp (outputs step sp) ps) ?csv)))"
      by (simp add: and_then_def)
    then show ?thesis using Inr r ps by (simp add: pipeline_def Let_def)
  qed
qed

text \<open>
  Claim C10. \<open>MIMEText\<close> is bound by no import and no assignment of the module, so
  building the message raises NameError before the mail transport is reached, whatever
  that transport would do. A pressed button therefore always gives the error message of
  line 117, and the success message of line 115 appears in no run of the script.
\<close>

theorem alert_mail_never_sent:
  "send_message smtp = Inl (NameError ''MIMEText'')
   \<and> alert_try True smtp = [Send_error (NameError ''MIMEText'')]
   \<and> Send_success \<notin> set (alert_try button smtp)
   \<and> Send_success \<notin> set (fst (run_script step smtp response T p armed button))"
proof -
  have a: "Send_success \<notin> set (alert_try button smtp)" by (simp add: alert_try_events)
  have "Send_success \<notin> set (fst (alert_section armed (raw_wind response) button smtp))"
    using a by (simp add: alert_section_def split: sum.splits)
  then have "Send_success \<notin> set (fst (run_script step smtp response T p armed button))"
    unfolding run_script_def
    using and_then_events [of "pipeline step response T p"
        "alert_section armed (raw_wind response) button smtp"]
      pipeline_events [of step response T p] by blast
  then show ?thesis using a by (simp add: send_message_fails alert_try_events)
qed


lemma acquire_wind:
  "acquire response T = Inr (wind, wn, sp) \<Longrightarrow> wind = raw_wind response"
  by (auto simp add: acquire_def raw_wind_def Let_def split: sum.splits)

lemma and_then_completed:
  "snd (and_then a b) = Completed \<longleftrightarrow> snd a = Completed \<and> snd b = Completed"
  by (cases "snd a") (simp_all add: and_then_def)

lemma summary_needs_wind:
  "snd (summary wind sp outs ps) = Completed \<Longrightarrow> wind \<noteq> []"
  by (auto simp add: summary_def split: sum.splits)

lemma pipeline_completed_wind:
  assumes "snd (pipeline step response T p) = Completed"
  shows "raw_wind response \<noteq> []"
proof (cases "acquire response T")
  case (Inl e)
  then show ?thesis using assms by (simp add: pipeline_def)
next
  case (Inr r)
  obtain wind wn sp where r: "r = (wind, wn, sp)" by (cases r) auto
  have w: "wind = raw_wind response" using Inr r by (simp add: acquire_wind)
  show ?thesis
  proof (cases "preds wind p")
    case (Inl e)
    then show ?thesis using assms Inr r by (simp add: pipeline_def)
  next
    case ps: (Inr ps)
    have "snd (summary wind sp (outputs step sp) ps) = Completed"
      using assms Inr r ps by (simp add: pipeline_def Let_def and_then_completed)
    then show ?thesis using w summary_needs_wind by blast
  qed
qed

lemma alert_section_completed:
  "wind \<noteq> [] \<Longrightarrow> snd (alert_section armed wind button smtp) = Completed"
  by (simp add: alert_section_def alert_condition_def py_max_Max)

lemma pipeline_completes:
  assumes "24 \<le> length samples"
    and "Max (set (take 24 samples)) \<noteq> Min (set (take 24 samples))"
    and "1 \<le> p"
  shows "snd (pipeline step (Inr samples) T p) = Completed"
proof -
  let ?wind = "take 24 samples"
  let ?wn = "map (\<lambda>w. (w - Min (set ?wind)) / (Max (set ?wind) - Min (set ?wind))) ?wind"
  let ?sp = "spikes T ?wn"
  let ?outs = "outputs step ?sp"
  let ?ps = "map (\<lambda>i. Some (sum_list (take p (drop i ?wind)) / real p)) [0..<25 - p]
         @ replicate (24 - (25 - p)) None"
  have lw: "length ?wind = 24" using assms(1) by simp
  have ne: "?wind \<noteq> []" using lw by auto
  have acq: "acquire (Inr samples) T = Inr (?wind, ?wn, ?sp)"
    by (rule acquire_scaled [OF ne assms(2)])
  have lsp: "length ?sp = 24" using lw by (simp add: spikes_def)
  have louts: "length ?outs = 24" using lsp by (simp only: outputs_length)
  have outs_ne: "?outs \<noteq> []" using louts by auto
  have ps: "preds ?wind p = Inr ?ps" by (rule preds_24_any [OF lw assms(3)])
  have lps: "length ?ps = 24" using assms(3) by simp
  have lwn: "length ?wn = 24" using lw by simp
  have sum: "snd (summary ?wind ?sp ?outs ?ps) = Completed"
    using summary_completed [OF outs_ne ne lps lsp] by simp
  have df: "\<exists>rows. data_frame ?wind ?wn ?sp ?outs ?ps = Inr rows"
    using lw lwn lsp louts lps by (simp only: data_frame_def) simp
  then obtain rows where rows: "data_frame ?wind ?wn ?sp ?outs ?ps = Inr rows" by blast
  have "pipeline step (Inr samples) T p =
      and_then ([Pyplot ?wind ?wn ?sp ?outs ?ps T], Completed)
        (and_then (summary ?wind ?sp ?outs ?ps) ([Download_csv rows], Completed))"
    by (simp only: pipeline_def acq ps rows Let_def sum.case prod.case)
  then show ?thesis using sum by (simp add: and_then_completed)
qed

lemma run_script_after_pipeline:
  assumes "snd (pipeline step response T p) = Completed"
  shows "run_script step smtp response T p armed button =
    (fst (pipeline step response T p)
       @ (if armed \<and> Max (set (raw_wind response)) > 30 \<and> button
          then [Send_error (NameError ''MIMEText'')] else []), Completed)"
proof -
  have ne: "raw_wind response \<noteq> []" by (rule pipeline_completed_wind [OF assms])
  have "alert_section armed (raw_wind response) button smtp =
      ((if armed \<and> Max (set (raw_wind response)) > 30 then alert_try button smtp else []),
       Completed)"
    using ne by (simp add: alert_condition_def alert_section_def py_max_Max)
  then show ?thesis using assms
    by (simp add: run_script_def and_then_def alert_try_events)
qed

lemma run_script_without_alert:
  assumes "snd (pipeline step response T p) \<noteq> Completed"
  shows "run_script step smtp response T p armed button = pipeline step response T p"
  using assms by (cases "snd (pipeline step response T p)") (simp_all add: run_script_def and_then_def)

text \<open>
  Claim C7. Any exception raised while the mail is built or sent is caught by the
  \<open>except\<close> clause of line 116 and shown to the user, in the run itself: when lines 30
  to 96 have run to their end, the checkbox is on, the maximum of the raw samples exceeds
  30 and the button is pressed, the run shows what lines 30 to 96 show, then the error of
  the failed attempt, and ends normally. In every run the alert section comes last: a run
  whose lines 30 to 96 end normally shows what they show, followed by that one error
  message exactly when the three conditions hold, and ends normally; a run whose lines
  30 to 96 stop or crash is those lines alone. So what the other components show depends
  on no input of the alert, and with at least one sample the alert section never crashes.
\<close>

theorem alert_failure_contained:
  "(send_message smtp = Inl e \<longrightarrow> alert_try True smtp = [Send_error e])
   \<and> (send_message smtp = Inl e \<and> snd (pipeline step response T p) = Completed
        \<and> armed \<and> Max (set (raw_wind response)) > 30 \<and> button
      \<longrightarrow> run_script step smtp response T p armed button
            = (fst (pipeline step response T p) @ [Send_error e], Completed))
   \<and> (snd (pipeline step response T p) = Completed
      \<longrightarrow> run_script step smtp response T p armed button
            = (fst (pipeline step response T p)
                 @ (if armed \<and> Max (set (raw_wind response)) > 30 \<and> button
                    then [Send_error (NameError ''MIMEText'')] else []), Completed))
   \<and> (snd (pipeline step response T p) \<noteq> Completed
      \<longrightarrow> run_script step smtp response T p armed button = pipeline step response T p)
   \<and> (wind \<noteq> [] \<longrightarrow> snd (alert_section armed wind button smtp) = Completed)
   \<and> (\<exists>alert_events.
         fst (run_script step smtp response T p armed button)
           = fst (pipeline step response T p) @ alert_events
         \<and> (alert_events = [] \<or> (\<exists>x. alert_events = [Send_error x])))
   \<and> snd (run_script step smtp response T p armed button) = snd (pipeline step response T p)"
proof -
  let ?main = "pipeline step response T p"
  let ?run = "run_script step smtp response T p armed button"
  have caught: "send_message smtp = Inl e \<longrightarrow> alert_try True smtp = [Send_error e]"
    by (simp add: alert_try_def)
  have after: "snd ?main = Completed \<longrightarrow> ?run
      = (fst ?main @ (if armed \<and> Max (set (raw_wind response)) > 30 \<and> button
                    then [Send_error (NameError ''MIMEText'')] else []), Completed)"
    using run_script_after_pipeline [of step response T p smtp armed button] by blast
  have reported: "send_message smtp = Inl e \<and> snd ?main = Completed
        \<and> armed \<and> Max (set (raw_wind response)) > 30 \<and> button
      \<longrightarrow> ?run = (fst ?main @ [Send_error e], Completed)"
    using after send_message_fails [of smtp] by auto
  have without: "snd ?main \<noteq> Completed \<longrightarrow> ?run = ?main"
    using run_script_without_alert [of step response T p smtp armed button] by blast
  have no_crash: "wind \<noteq> [] \<longrightarrow> snd (alert_section armed wind button smtp) = Completed"
    by (simp add: alert_section_completed)
  have shape: "\<exists>alert_events. fst ?run = fst ?main @ alert_events
         \<and> (alert_events = [] \<or> (\<exists>x. alert_events = [Send_error x]))"
  proof (cases "snd ?main = Completed")
    case True
    then show ?thesis using after by auto
  next
    case False
    then show ?thesis using without by auto
  qed
  have ends: "snd ?run = snd ?main"
  proof (cases "snd ?main = Completed")
    case True
    then show ?thesis using after by auto
  next
    case False
    then show ?thesis using without by auto
  qed
  show ?thesis using caught reported after without no_crash shape ends by blast
qed

lemma ramp_raw: "raw_wind (Inr ramp) = ramp"
  by (simp add: raw_wind_def ramp_eq)

text \<open>
  The theorem with a mail transport that fails, the checkbox on, the button pressed and
  the series 10, 20, ..., 240, on which lines 30 to 96 run to their end.
\<close>

theorem alert_failure_contained_witness:
  "send_message (Inl RequestError) = Inl (NameError ''MIMEText'')
   \<and> snd (pipeline (\<lambda>x s w_in w_rec alpha. (x, s)) (Inr ramp) (3 / 10) 3) = Completed
   \<and> Max (set (raw_wind (Inr ramp))) > 30
   \<and> run_script (\<lambda>x s w_in w_rec alpha. (x, s)) (Inl RequestError) (Inr ramp) (3 / 10) 3
        True True
       = (fst (pipeline (\<lambda>x s w_in w_rec alpha. (x, s)) (Inr ramp) (3 / 10) 3)
            @ [Send_error (NameError ''MIMEText'')], Completed)
   \<and> alert_try True (Inl RequestError) = [Send_error (NameError ''MIMEText'')]
   \<and> ramp \<noteq> []
   \<and> snd (alert_section True ramp True (Inl RequestError)) = Completed"
proof -
  let ?f = "\<lambda>(x::real) (s::lif_state) (w_in::real) (w_rec::real) (alpha::real). (x, s)"
  have len: "24 \<le> length ramp" by (simp add: ramp_def)
  have t: "take 24 ramp = ramp" by (simp add: ramp_def)
  have mm: "Max (set (take 24 ramp)) \<noteq> Min (set (take 24 ramp))"
    by (simp add: t ramp_min_max)
  have fail: "send_message (Inl RequestError) = Inl (NameError ''MIMEText'')"
    by (rule send_message_fails)
  have fin: "snd (pipeline ?f (Inr ramp) (3 / 10) 3) = Completed"
    by (rule pipeline_completes [OF len mm]) simp
  have big: "Max (set (raw_wind (Inr ramp))) > 30" by (simp add: ramp_raw ramp_min_max)
  note inst = alert_failure_contained [of "Inl RequestError" "NameError ''MIMEText''" ?f
      "Inr ramp" "3 / 10" 3 True True ramp]
  have run: "run_script ?f (Inl RequestError) (Inr ramp) (3 / 10) 3 True True
       = (fst (pipeline ?f (Inr ramp) (3 / 10) 3) @ [Send_error (NameError ''MIMEText'')],
          Completed)"
    using inst fail fin big by blast
  have attempt: "alert_try True (Inl RequestError) = [Send_error (NameError ''MIMEText'')]"
    using inst fail by blast
  have sec: "snd (alert_section True ramp True (Inl RequestError)) = Completed"
    using inst ramp_ne by blast
  show ?thesis using fail fin big run attempt sec ramp_ne by blast
qed

end
